theory Spec2Isabelle
  imports Complex_Main "HOL-Library.Word" "HOL-Library.Sublist"
begin

section \<open>Strings, whitespace and the regular expressions of the source\<close>

text \<open>
  A Python \<open>str\<close> is a sequence of Unicode code points, so a string is a list of
  natural numbers; \<open>len\<close> is \<open>length\<close>. Literals of the source that are ASCII are
  written with \<open>ascii\<close>.
\<close>

type_synonym ustr = "nat list"

definition ascii :: "string \<Rightarrow> ustr" where
  "ascii s = map of_char s"

text \<open>
  The class \<open>\s\<close> of a \<open>str\<close> pattern, and the characters \<open>str.strip()\<close> removes:
  the code points for which \<open>str.isspace\<close> holds.
\<close>

definition is_space :: "nat \<Rightarrow> bool" where
  "is_space c \<longleftrightarrow>
     (9 \<le> c \<and> c \<le> 13) \<or> (28 \<le> c \<and> c \<le> 32) \<or> c = 133 \<or> c = 160 \<or> c = 5760 \<or>
     (8192 \<le> c \<and> c \<le> 8202) \<or> c = 8232 \<or> c = 8233 \<or> c = 8239 \<or> c = 8287 \<or>
     c = 12288"

text \<open>\<open>s.strip()\<close>: whitespace removed at both ends.\<close>

definition strip :: "ustr \<Rightarrow> ustr" where
  "strip s = rev (dropWhile is_space (rev (dropWhile is_space s)))"

text \<open>\<open>s[:k]\<close> for a Python integer \<open>k\<close>: a negative \<open>k\<close> counts from the end.\<close>

definition slice_to :: "ustr \<Rightarrow> int \<Rightarrow> ustr" where
  "slice_to s k = (if 0 \<le> k then take (nat k) s else take (nat (int (length s) + k)) s)"

subsection \<open>\<open>re.sub(r"\s+\S*$", "", cut)\<close>\<close>

text \<open>
  \<open>tail_match s\<close> is the match of \<open>\s+\S*$\<close> at the start of \<open>s\<close>: what is left after
  it. \<open>\s+\<close> and \<open>\S*\<close> are greedy and giving characters back never helps; \<open>$\<close> holds
  at the end of the string and before a newline that is its last character.
\<close>

definition tail_match :: "ustr \<Rightarrow> ustr option" where
  "tail_match s =
     (case s of
        [] \<Rightarrow> None
      | c # cs \<Rightarrow>
          if \<not> is_space c then None
          else (let r = dropWhile (\<lambda>x. \<not> is_space x) (dropWhile is_space cs)
                in if r = [] \<or> r = [10] then Some r else None))"

lemma tail_match_shorter: "tail_match s = Some r \<Longrightarrow> length r < length s"
proof -
  assume a: "tail_match s = Some r"
  then obtain c cs where s: "s = c # cs"
    by (cases s) (auto simp: tail_match_def)
  from a s have r: "r = dropWhile (\<lambda>x. \<not> is_space x) (dropWhile is_space cs)"
    by (auto simp: tail_match_def Let_def split: if_splits)
  have "length r \<le> length (dropWhile is_space cs)"
    unfolding r by (rule length_dropWhile_le)
  also have "\<dots> \<le> length cs"
    by (rule length_dropWhile_le)
  finally show ?thesis using s by simp
qed

text \<open>
  \<open>re.sub\<close> scans from the left: where the pattern matches, the match is replaced (here
  by nothing) and the scan goes on after it; elsewhere the character is kept.
\<close>

function tail_sub :: "ustr \<Rightarrow> ustr" where
  "tail_sub [] = []"
| "tail_sub (c # cs) =
     (case tail_match (c # cs) of
        Some r \<Rightarrow> tail_sub r
      | None \<Rightarrow> c # tail_sub cs)"
  by pat_completeness auto
termination
  by (relation "measure length") (auto dest: tail_match_shorter)

section \<open>\<open>chunk_plain_text\<close>\<close>

definition ellipsis :: nat where
  "ellipsis = 8230"

definition chunk_plain_text :: "ustr \<Rightarrow> int \<Rightarrow> ustr" where
  "chunk_plain_text s maxlen =
     (if int (length s) \<le> maxlen then s
      else strip (tail_sub (slice_to s (maxlen - 1))) @ [ellipsis])"


subsection \<open>\<open>re.sub(r"\s+", nbsp_replacer, cleaned)\<close>\<close>

text \<open>
  The callback the source passes to \<open>re.sub\<close> (the source spells its name with a
  leading \<open>&\<close>) ignores the match and returns one space.
\<close>

definition nbsp_replacer :: "ustr \<Rightarrow> ustr" where
  "nbsp_replacer m = [32]"

function ws_sub :: "ustr \<Rightarrow> ustr" where
  "ws_sub [] = []"
| "ws_sub (c # cs) =
     (if is_space c
      then nbsp_replacer (c # takeWhile is_space cs) @ ws_sub (dropWhile is_space cs)
      else c # ws_sub cs)"
  by pat_completeness auto
termination
  by (relation "measure length") (auto simp: less_Suc_eq_le length_dropWhile_le)

subsection \<open>\<open>re.sub(r"(?:\s*<br\s*/?>\s*){3,}", "<br><br>", cleaned)\<close>\<close>

text \<open>\<open>tag_tail\<close> matches \<open>\s*/?>\<close> and \<open>br_tag\<close> matches \<open><br\s*/?>\<close>.\<close>

definition tag_tail :: "ustr \<Rightarrow> ustr option" where
  "tag_tail s =
     (case dropWhile is_space s of
        [] \<Rightarrow> None
      | x # r \<Rightarrow>
          if x = 62 then Some r
          else if x = 47 then (case r of [] \<Rightarrow> None | y # r' \<Rightarrow> if y = 62 then Some r' else None)
          else None)"

definition br_tag :: "ustr \<Rightarrow> ustr option" where
  "br_tag s =
     (case s of
        a # b # c # r \<Rightarrow> if a = 60 \<and> b = 98 \<and> c = 114 then tag_tail r else None
      | _ \<Rightarrow> None)"

text \<open>One round of the group: \<open>\s*<br\s*/?>\s*\<close>.\<close>

definition br_iter :: "ustr \<Rightarrow> ustr option" where
  "br_iter s = map_option (dropWhile is_space) (br_tag (dropWhile is_space s))"

lemma tag_tail_shorter: "tag_tail s = Some r \<Longrightarrow> length r < length s"
proof -
  assume a: "tag_tail s = Some r"
  have "length r < length (dropWhile is_space s)"
    using a by (auto simp: tag_tail_def split: list.splits if_splits)
  also have "\<dots> \<le> length s"
    by (rule length_dropWhile_le)
  finally show ?thesis .
qed

lemma br_tag_shorter: "br_tag s = Some r \<Longrightarrow> length r < length s"
  by (auto simp: br_tag_def split: list.splits if_splits dest!: tag_tail_shorter)

lemma br_iter_shorter: "br_iter s = Some r \<Longrightarrow> length r < length s"
proof -
  assume "br_iter s = Some r"
  then obtain r0 where r0: "br_tag (dropWhile is_space s) = Some r0" "r = dropWhile is_space r0"
    by (auto simp: br_iter_def)
  have "length r \<le> length r0"
    unfolding r0(2) by (rule length_dropWhile_le)
  also have "\<dots> < length (dropWhile is_space s)"
    using r0(1) by (rule br_tag_shorter)
  also have "\<dots> \<le> length s"
    by (rule length_dropWhile_le)
  finally show ?thesis .
qed

text \<open>
  The greedy repetition: the number of rounds that match from the start of \<open>s\<close>, and
  what is left after them. The pattern matches where at least three rounds do.
\<close>

function br_run :: "ustr \<Rightarrow> nat \<times> ustr" where
  "br_run s =
     (case br_iter s of
        None \<Rightarrow> (0, s)
      | Some r \<Rightarrow> (case br_run r of (n, r') \<Rightarrow> (Suc n, r')))"
  by pat_completeness auto
termination
  by (relation "measure length") (auto dest: br_iter_shorter)

declare br_run.simps [simp del]

definition br_match :: "ustr \<Rightarrow> ustr option" where
  "br_match s = (case br_run s of (n, r) \<Rightarrow> if 3 \<le> n then Some r else None)"

lemma br_run_shorter: "br_run s = (n, r) \<Longrightarrow> 0 < n \<Longrightarrow> length r < length s"
proof (induction s arbitrary: n r rule: br_run.induct)
  case (1 s)
  show ?case
  proof (cases "br_iter s")
    case None
    with "1.prems" show ?thesis
      by (simp add: br_run.simps[of s])
  next
    case (Some r1)
    obtain m r2 where run: "br_run r1 = (m, r2)"
      by (cases "br_run r1")
    with Some "1.prems"(1) have r: "r = r2"
      by (simp add: br_run.simps[of s])
    have "length r2 \<le> length r1"
    proof (cases m)
      case 0
      with run show ?thesis
        by (cases "br_iter r1") (auto simp: br_run.simps[of r1] split: prod.splits)
    next
      case (Suc k)
      with "1.IH"[OF Some run] show ?thesis by simp
    qed
    with br_iter_shorter[OF Some] r show ?thesis by simp
  qed
qed

lemma br_match_shorter: "br_match s = Some r \<Longrightarrow> length r < length s"
proof -
  assume a: "br_match s = Some r"
  obtain n r' where run: "br_run s = (n, r')"
    by (cases "br_run s")
  with a have "3 \<le> n" "r' = r"
    by (auto simp: br_match_def split: if_splits)
  with br_run_shorter[OF run] show ?thesis by simp
qed

function br_sub :: "ustr \<Rightarrow> ustr" where
  "br_sub [] = []"
| "br_sub (c # cs) =
     (case br_match (c # cs) of
        Some r \<Rightarrow> ascii ''<br><br>'' @ br_sub r
      | None \<Rightarrow> c # br_sub cs)"
  by pat_completeness auto
termination
  by (relation "measure length") (auto dest: br_match_shorter)


text \<open>Every whitespace character is a single space between two other characters.\<close>

fun single_spaced :: "ustr \<Rightarrow> bool" where
  "single_spaced [] = True"
| "single_spaced (c # cs) =
     ((if is_space c then c = 32 \<and> (case cs of [] \<Rightarrow> True | d # ds \<Rightarrow> \<not> is_space d) else True) \<and>
      single_spaced cs)"





section \<open>Configuration and allow-lists\<close>

text \<open>The module constants read from the environment at start-up.\<close>

record config =
  SOURCE_FEED_URL :: ustr
  SITE_BASE :: ustr
  FEED_TITLE :: ustr
  FEED_LINK :: ustr
  FEED_DESCRIPTION :: ustr
  TELEGRAM_MAX :: int
  CACHE_TTL :: int

definition TG_ALLOWED_TAGS :: "ustr list" where
  "TG_ALLOWED_TAGS =
     map ascii [''b'', ''strong'', ''i'', ''em'', ''u'', ''s'', ''del'', ''code'', ''pre'', ''a'', ''br'']"

definition TG_ALLOWED_ATTRS :: "(ustr \<times> ustr list) list" where
  "TG_ALLOWED_ATTRS = [(ascii ''a'', [ascii ''href''])]"

definition ZEN_ALLOWED_TAGS :: "ustr list" where
  "ZEN_ALLOWED_TAGS =
     map ascii [''p'', ''br'', ''ul'', ''ol'', ''li'', ''blockquote'',
       ''b'', ''strong'', ''i'', ''em'', ''u'', ''s'', ''del'', ''code'', ''pre'',
       ''h2'', ''h3'', ''h4'', ''img'', ''a'', ''figure'', ''figcaption'']"

definition ZEN_ALLOWED_ATTRS :: "(ustr \<times> ustr list) list" where
  "ZEN_ALLOWED_ATTRS =
     [(ascii ''a'', map ascii [''href'', ''title'']),
      (ascii ''img'', map ascii [''src'', ''alt'', ''title'', ''width'', ''height''])]"

section \<open>Data\<close>

type_synonym byte = "8 word"

text \<open>
  A parsed feed as \<open>feedparser\<close> returns it. An entry is a dictionary; a key that is
  absent (or holds \<open>None\<close>) is \<open>None\<close> here. The \<open>*_parsed\<close> dates are
  \<open>time.struct_time\<close> tuples, kept as lists of integers.
\<close>

record content_block =
  c_type :: "ustr option"
  c_value :: "ustr option"

record tag_dict =
  tag_term :: "ustr option"

record enclosure =
  enc_href :: "ustr option"
  enc_url :: "ustr option"
  enc_type :: "ustr option"

record entry =
  e_id :: "ustr option"
  e_guid :: "ustr option"
  e_link :: "ustr option"
  e_title :: "ustr option"
  e_published :: "ustr option"
  e_published_parsed :: "int list option"
  e_updated_parsed :: "int list option"
  e_content :: "content_block list option"
  e_summary :: "ustr option"
  e_description :: "ustr option"
  e_author :: "ustr option"
  e_tags :: "tag_dict list option"
  e_enclosures :: "enclosure list option"

record parsed_feed =
  bozo :: bool
  entries :: "entry list"

text \<open>A \<open>datetime\<close> in UTC (every one the source builds has \<open>tzinfo=timezone.utc\<close>).\<close>

record datetime =
  year :: int
  month :: int
  day :: int
  hour :: int
  minute :: int
  second :: int

text \<open>The parse tree of BeautifulSoup: strings and tags with their attributes.\<close>

datatype node = Text ustr | Tag ustr "(ustr \<times> ustr) list" "node list"

text \<open>
  An \<open>lxml\<close> element: tag (in \<open>{namespace}name\<close> form where the source writes it so),
  namespace map, attributes, text and children in the order \<open>SubElement\<close> appended them.
\<close>

datatype xtext = Plain ustr | CDATA ustr

datatype xml = Element ustr "(ustr option \<times> ustr) list" "(ustr \<times> ustr) list" "xtext option" "xml list"

datatype error = RequestException | HTTPException nat | BuildFailure

text \<open>
  The libraries the module calls are parameters of the model: \<open>requests\<close>,
  \<open>feedparser\<close>, \<open>bleach\<close>, the parser and printer of BeautifulSoup, \<open>urljoin\<close> (\<open>None\<close>
  when it raises), \<open>mimetypes.guess_type\<close>, SHA-256, \<open>strftime\<close> with the format of the
  source, and the serialiser of \<open>lxml\<close>. The builders have no handler of their own, so a
  library that raises during a build ends the build; the model reports that outcome where
  the document is serialised.
\<close>

record lib =
  requests_get :: "ustr \<Rightarrow> error + byte list"
  feedparser_parse :: "byte list \<Rightarrow> parsed_feed"
  bleach_clean :: "ustr list \<Rightarrow> (ustr \<times> ustr list) list \<Rightarrow> ustr \<Rightarrow> ustr"
  BeautifulSoup :: "ustr \<Rightarrow> node list"
  soup_str :: "node list \<Rightarrow> ustr"
  urljoin :: "ustr \<Rightarrow> ustr \<Rightarrow> ustr option"
  guess_type :: "ustr \<Rightarrow> ustr option"
  sha256 :: "byte list \<Rightarrow> 256 word"
  strftime_rfc822 :: "datetime \<Rightarrow> ustr"
  etree_serialize :: "xml \<Rightarrow> error + byte list"

section \<open>Python idioms\<close>

text \<open>\<open>a or b\<close> on strings that may be absent: \<open>a\<close> when it is a non-empty string.\<close>

definition py_or :: "ustr option \<Rightarrow> ustr \<Rightarrow> ustr" where
  "py_or a b = (case a of None \<Rightarrow> b | Some v \<Rightarrow> if v = [] then b else v)"

text \<open>\<open>d.get(key, "")\<close>.\<close>

definition get_or_empty :: "ustr option \<Rightarrow> ustr" where
  "get_or_empty a = (case a of None \<Rightarrow> [] | Some v \<Rightarrow> v)"

text \<open>\<open>sep.join(parts)\<close>.\<close>

fun join :: "ustr \<Rightarrow> ustr list \<Rightarrow> ustr" where
  "join sep [] = []"
| "join sep [x] = x"
| "join sep (x # y # ys) = x @ sep @ join sep (y # ys)"

text \<open>\<open>g.encode("utf-8", "ignore")\<close>: a surrogate cannot be encoded and is left out.\<close>

definition utf8_char :: "nat \<Rightarrow> byte list" where
  "utf8_char c =
     (if c < 128 then [of_nat c]
      else if c < 2048 then [of_nat (192 + c div 64), of_nat (128 + c mod 64)]
      else if 55296 \<le> c \<and> c \<le> 57343 then []
      else if c < 65536
        then [of_nat (224 + c div 4096), of_nat (128 + (c div 64) mod 64), of_nat (128 + c mod 64)]
      else [of_nat (240 + c div 262144), of_nat (128 + (c div 4096) mod 64),
            of_nat (128 + (c div 64) mod 64), of_nat (128 + c mod 64)])"

definition encode_utf8 :: "ustr \<Rightarrow> byte list" where
  "encode_utf8 s = concat (map utf8_char s)"

text \<open>\<open>hexdigest()\<close>: the 64 hexadecimal digits of the 256-bit digest, high nibble first.\<close>

definition hex_digit :: "nat \<Rightarrow> nat" where
  "hex_digit d = (if d < 10 then 48 + d else 87 + d)"

definition hexdigest :: "256 word \<Rightarrow> ustr" where
  "hexdigest w = map (\<lambda>i. hex_digit (unat (drop_bit (4 * (63 - i)) w) mod 16)) [0..<64]"

section \<open>BeautifulSoup operations\<close>

text \<open>\<open>soup.find(name)\<close>: the first tag of that name in document order.\<close>

fun find_node :: "ustr \<Rightarrow> node \<Rightarrow> node option"
  and find_nodes :: "ustr \<Rightarrow> node list \<Rightarrow> node option" where
  "find_node n (Text s) = None"
| "find_node n (Tag m as cs) = (if m = n then Some (Tag m as cs) else find_nodes n cs)"
| "find_nodes n [] = None"
| "find_nodes n (x # xs) =
     (case find_node n x of Some r \<Rightarrow> Some r | None \<Rightarrow> find_nodes n xs)"

text \<open>\<open>tag.get(key)\<close>.\<close>

fun tag_get :: "node \<Rightarrow> ustr \<Rightarrow> ustr option" where
  "tag_get (Text s) k = None"
| "tag_get (Tag m as cs) k = map_of as k"

text \<open>
  \<open>for tag in soup.find_all(name, attr=True): tag[attr] = f(tag[attr])\<close>: every tag of
  that name that has the attribute gets it rewritten.
\<close>

fun rewrite_attr :: "ustr \<Rightarrow> ustr \<Rightarrow> (ustr \<Rightarrow> ustr) \<Rightarrow> node \<Rightarrow> node" where
  "rewrite_attr n a f (Text s) = Text s"
| "rewrite_attr n a f (Tag m as cs) =
     Tag m (if m = n then map (\<lambda>(k, v). if k = a then (k, f v) else (k, v)) as else as)
       (map (rewrite_attr n a f) cs)"

text \<open>
  \<open>for img in soup.find_all("img"): if img.get("src", "").startswith("data:"):
  img.decompose()\<close>: those tags leave the tree with all they contain.
\<close>

definition is_data_img :: "node \<Rightarrow> bool" where
  "is_data_img x =
     (case x of
        Text s \<Rightarrow> False
      | Tag m as cs \<Rightarrow> m = ascii ''img'' \<and> prefix (ascii ''data:'') (get_or_empty (map_of as (ascii ''src''))))"

fun decompose_data_imgs :: "node \<Rightarrow> node" where
  "decompose_data_imgs (Text s) = Text s"
| "decompose_data_imgs (Tag m as cs) =
     Tag m as (map decompose_data_imgs (filter (\<lambda>x. \<not> is_data_img x) cs))"

text \<open>
  \<open>get_text(sep, strip=True)\<close>: the strings of the tree in document order, each stripped,
  the empty ones left out, joined by \<open>sep\<close>.
\<close>

fun strings_of :: "node \<Rightarrow> ustr list" where
  "strings_of (Text s) = [s]"
| "strings_of (Tag m as cs) = concat (map strings_of cs)"

definition get_text :: "ustr \<Rightarrow> node list \<Rightarrow> ustr" where
  "get_text sep ns = join sep (filter (\<lambda>s. s \<noteq> []) (map strip (concat (map strings_of ns))))"


section \<open>Identity and dates\<close>

text \<open>
  \<open>datetime(*val[:6], tzinfo=timezone.utc)\<close>: \<open>None\<close> where the constructor raises (too
  few arguments, or a field out of range), which the source catches.
\<close>

definition is_leap :: "int \<Rightarrow> bool" where
  "is_leap y \<longleftrightarrow> y mod 4 = 0 \<and> (y mod 100 \<noteq> 0 \<or> y mod 400 = 0)"

definition days_in_month :: "int \<Rightarrow> int \<Rightarrow> int" where
  "days_in_month y m =
     (if m = 2 then (if is_leap y then 29 else 28)
      else if m = 4 \<or> m = 6 \<or> m = 9 \<or> m = 11 then 30 else 31)"

fun datetime_args :: "int list \<Rightarrow> (int \<times> int \<times> int \<times> int \<times> int \<times> int) option" where
  "datetime_args (y # m # d # h # mi # s # rest) = Some (y, m, d, h, mi, s)"
| "datetime_args [y, m, d, h, mi] = Some (y, m, d, h, mi, 0)"
| "datetime_args [y, m, d, h] = Some (y, m, d, h, 0, 0)"
| "datetime_args [y, m, d] = Some (y, m, d, 0, 0, 0)"
| "datetime_args val = None"

definition mk_datetime :: "int list \<Rightarrow> datetime option" where
  "mk_datetime val =
     (case datetime_args val of
        None \<Rightarrow> None
      | Some (y, m, d, h, mi, s) \<Rightarrow>
          if 1 \<le> y \<and> y \<le> 9999 \<and> 1 \<le> m \<and> m \<le> 12 \<and> 1 \<le> d \<and> d \<le> days_in_month y m \<and>
             0 \<le> h \<and> h \<le> 23 \<and> 0 \<le> mi \<and> mi \<le> 59 \<and> 0 \<le> s \<and> s \<le> 59
          then Some \<lparr>year = y, month = m, day = d, hour = h, minute = mi, second = s\<rparr>
          else None)"

text \<open>One round of the loop of \<open>safe_pubdate\<close>: \<open>if val: try: return datetime(...)\<close>.\<close>

definition try_date :: "int list option \<Rightarrow> datetime option" where
  "try_date v = (case v of None \<Rightarrow> None | Some val \<Rightarrow> if val = [] then None else mk_datetime val)"

text \<open>\<open>now\<close> is what \<open>datetime.now(timezone.utc)\<close> returns when it is called.\<close>

definition safe_pubdate :: "datetime \<Rightarrow> entry \<Rightarrow> datetime" where
  "safe_pubdate now e =
     (case try_date (e_published_parsed e) of
        Some d \<Rightarrow> d
      | None \<Rightarrow> (case try_date (e_updated_parsed e) of Some d \<Rightarrow> d | None \<Rightarrow> now))"

definition dt_to_rfc822 :: "lib \<Rightarrow> datetime \<Rightarrow> ustr" where
  "dt_to_rfc822 lib dt = strftime_rfc822 lib dt"

definition guid_for :: "lib \<Rightarrow> entry \<Rightarrow> ustr" where
  "guid_for lib e =
     (let g = py_or (e_id e) (py_or (e_guid e) (py_or (e_link e)
                (get_or_empty (e_title e) @ get_or_empty (e_published e))))
      in hexdigest (sha256 lib (encode_utf8 g)))"

section \<open>Content extraction, sanitizing, media\<close>

definition absolutize_url :: "lib \<Rightarrow> ustr \<Rightarrow> ustr \<Rightarrow> ustr" where
  "absolutize_url lib src base = (case urljoin lib base src of Some u \<Rightarrow> u | None \<Rightarrow> src)"

text \<open>The loop over \<open>entry.content\<close> with its \<open>break\<close>.\<close>

fun first_html_content :: "content_block list \<Rightarrow> ustr" where
  "first_html_content [] = []"
| "first_html_content (c # cs) =
     (if prefix (ascii ''text/html'') (get_or_empty (c_type c)) then py_or (c_value c) []
      else first_html_content cs)"

definition extract_main_html :: "lib \<Rightarrow> config \<Rightarrow> entry \<Rightarrow> ustr \<times> ustr option" where
  "extract_main_html lib cfg e =
     (let base = py_or (e_link e) (SITE_BASE cfg);
          html0 = (case e_content e of None \<Rightarrow> [] | Some cs \<Rightarrow> first_html_content cs);
          html = (if html0 = [] then py_or (e_summary e) (py_or (e_description e) []) else html0);
          soup = BeautifulSoup lib html;
          first_img =
            (case find_nodes (ascii ''img'') soup of
               None \<Rightarrow> None
             | Some img \<Rightarrow>
                 (case tag_get img (ascii ''src'') of
                    None \<Rightarrow> None
                  | Some src \<Rightarrow> if src = [] then None else Some (absolutize_url lib src base)));
          soup1 = map (rewrite_attr (ascii ''a'') (ascii ''href'') (\<lambda>v. absolutize_url lib v base)) soup;
          soup2 = map (rewrite_attr (ascii ''img'') (ascii ''src'') (\<lambda>v. absolutize_url lib v base)) soup1
      in (soup_str lib soup2, first_img))"

definition sanitize_for_tg :: "lib \<Rightarrow> ustr \<Rightarrow> ustr" where
  "sanitize_for_tg lib html =
     (let cleaned = bleach_clean lib TG_ALLOWED_TAGS TG_ALLOWED_ATTRS html;
          cleaned = ws_sub cleaned;
          cleaned = br_sub cleaned
      in cleaned)"

definition sanitize_for_zen :: "lib \<Rightarrow> ustr \<Rightarrow> ustr" where
  "sanitize_for_zen lib html =
     (let cleaned = bleach_clean lib ZEN_ALLOWED_TAGS ZEN_ALLOWED_ATTRS html;
          soup = BeautifulSoup lib cleaned
      in soup_str lib (map decompose_data_imgs (filter (\<lambda>x. \<not> is_data_img x) soup)))"

definition guess_mime :: "lib \<Rightarrow> ustr \<Rightarrow> ustr" where
  "guess_mime lib u = py_or (guess_type lib u) (ascii ''image/jpeg'')"

definition pick_enclosure :: "lib \<Rightarrow> config \<Rightarrow> entry \<Rightarrow> ustr option \<Rightarrow> (ustr \<times> ustr) option" where
  "pick_enclosure lib cfg e html_first_img =
     (let from_feed =
            (case e_enclosures e of
               Some (enc # rest) \<Rightarrow>
                 (let href = py_or (enc_href enc) (get_or_empty (enc_url enc))
                  in if href = [] then None
                     else (let href = absolutize_url lib href (py_or (e_link e) (SITE_BASE cfg))
                           in Some (href, py_or (enc_type enc) (guess_mime lib href))))
             | _ \<Rightarrow> None)
      in case from_feed of
           Some r \<Rightarrow> Some r
         | None \<Rightarrow>
             (case html_first_img of
                None \<Rightarrow> None
              | Some u \<Rightarrow> if u = [] then None else Some (u, guess_mime lib u)))"

section \<open>Fetching\<close>

text \<open>
  The cache of the module, with a count of the requests sent upstream (the count is not
  in the source: it records the calls of \<open>http_get\<close>). Times are the seconds of
  \<open>time.time()\<close>.
\<close>

record state =
  cache_t :: real
  cache_zen :: "byte list"
  cache_tg :: "byte list"
  requests_sent :: nat

definition initial_state :: state where
  "initial_state = \<lparr>cache_t = 0, cache_zen = [], cache_tg = [], requests_sent = 0\<rparr>"

definition http_get :: "lib \<Rightarrow> ustr \<Rightarrow> state \<Rightarrow> (error + byte list) \<times> state" where
  "http_get lib u st = (requests_get lib u, st\<lparr>requests_sent := Suc (requests_sent st)\<rparr>)"

definition fetch_source_feed :: "lib \<Rightarrow> config \<Rightarrow> state \<Rightarrow> (error + parsed_feed) \<times> state" where
  "fetch_source_feed lib cfg st =
     (case http_get lib (SOURCE_FEED_URL cfg) st of
        (Inl err, st') \<Rightarrow> (Inl err, st')
      | (Inr content, st') \<Rightarrow>
          (let fp = feedparser_parse lib content
           in if bozo fp \<and> entries fp = [] then (Inl (HTTPException 502), st')
              else (Inr fp, st')))"

section \<open>The two builders\<close>

definition sub_text :: "string \<Rightarrow> ustr \<Rightarrow> xml" where
  "sub_text tag txt = Element (ascii tag) [] [] (Some (Plain txt)) []"

definition no_title :: ustr where
  "no_title = [1041, 1077, 1079, 32, 1085, 1072, 1079, 1074, 1072, 1085, 1080, 1103]"

definition xml_declaration :: "byte list" where
  "xml_declaration =
     map of_char (''<?xml version='' @ [CHR 0x27] @ ''1.0'' @ [CHR 0x27] @ '' encoding='' @
       [CHR 0x27] @ ''utf-8'' @ [CHR 0x27] @ ''?>'' @ [CHR 0x0A])"

text \<open>\<open>etree.tostring(rss, encoding="utf-8", xml_declaration=True, pretty_print=True)\<close>.\<close>

definition tostring :: "lib \<Rightarrow> xml \<Rightarrow> error + byte list" where
  "tostring lib x =
     (case etree_serialize lib x of
        Inl err \<Rightarrow> Inl err
      | Inr body \<Rightarrow> Inr (xml_declaration @ body))"

definition NSMAP :: "(ustr option \<times> ustr) list" where
  "NSMAP =
     [(None, ascii ''http://backend.userland.com/rss2''),
      (Some (ascii ''content''), ascii ''http://purl.org/rss/1.0/modules/content/''),
      (Some (ascii ''atom''), ascii ''http://www.w3.org/2005/Atom''),
      (Some (ascii ''yandex''), ascii ''http://news.yandex.ru''),
      (Some (ascii ''media''), ascii ''http://search.yahoo.com/mrss/'')]"

text \<open>The children of one \<open>item\<close> of the rich feed, in the order they are appended.\<close>

definition zen_media :: "(ustr \<times> ustr) option \<Rightarrow> xml list" where
  "zen_media enc =
     (case enc of
        None \<Rightarrow> []
      | Some (u, mime) \<Rightarrow>
          [Element (ascii ''enclosure'') [] [(ascii ''url'', u), (ascii ''type'', mime)] None [],
           Element (ascii ''{http://search.yahoo.com/mrss/}content'') []
             [(ascii ''url'', u), (ascii ''type'', mime)] None []])"

definition zen_author :: "entry \<Rightarrow> xml list" where
  "zen_author e =
     (case e_author e of
        None \<Rightarrow> []
      | Some a \<Rightarrow> if a = [] then [] else [sub_text ''author'' a])"

definition zen_categories :: "entry \<Rightarrow> xml list" where
  "zen_categories e =
     concat (map (\<lambda>tag. case tag_term tag of
                          None \<Rightarrow> []
                        | Some v \<Rightarrow> if v = [] then [] else [sub_text ''category'' v])
       (take 10 (case e_tags e of None \<Rightarrow> [] | Some tags \<Rightarrow> tags)))"

definition zen_description :: "lib \<Rightarrow> ustr \<Rightarrow> xml list" where
  "zen_description lib full_html =
     (case find_nodes (ascii ''p'') (BeautifulSoup lib full_html) of
        None \<Rightarrow> []
      | Some p \<Rightarrow> [sub_text ''description'' (take 500 (get_text [32] [p]))])"

definition zen_item :: "lib \<Rightarrow> config \<Rightarrow> datetime \<Rightarrow> entry \<Rightarrow> xml" where
  "zen_item lib cfg now e =
     (let title = py_or (e_title e) no_title;
          link = py_or (e_link e) (FEED_LINK cfg);
          (raw_html, first_img) = extract_main_html lib cfg e;
          full_html = sanitize_for_zen lib raw_html
      in Element (ascii ''item'') [] [] None
           ([sub_text ''title'' title,
             sub_text ''link'' link,
             sub_text ''guid'' (guid_for lib e),
             sub_text ''pubDate'' (dt_to_rfc822 lib (safe_pubdate now e)),
             Element (ascii ''{http://purl.org/rss/1.0/modules/content/}encoded'') [] []
               (Some (CDATA full_html)) [],
             Element (ascii ''{http://news.yandex.ru}full-text'') [] []
               (Some (CDATA full_html)) []]
            @ zen_media (pick_enclosure lib cfg e first_img)
            @ zen_author e
            @ zen_categories e
            @ zen_description lib full_html))"

definition build_zen_xml :: "lib \<Rightarrow> config \<Rightarrow> datetime \<Rightarrow> parsed_feed \<Rightarrow> error + byte list" where
  "build_zen_xml lib cfg now fp =
     tostring lib
       (Element (ascii ''rss'') NSMAP [(ascii ''version'', ascii ''2.0'')] None
          [Element (ascii ''channel'') [] [] None
             ([sub_text ''title'' (FEED_TITLE cfg),
               sub_text ''link'' (FEED_LINK cfg),
               sub_text ''description'' (FEED_DESCRIPTION cfg),
               Element (ascii ''{http://www.w3.org/2005/Atom}link'') []
                 [(ascii ''href'', rev (dropWhile (\<lambda>c. c = 47) (rev (FEED_LINK cfg))) @ ascii ''/zen.xml''),
                  (ascii ''rel'', ascii ''self''),
                  (ascii ''type'', ascii ''application/rss+xml'')] None []]
              @ map (zen_item lib cfg now) (entries fp))])"

definition tg_item :: "lib \<Rightarrow> config \<Rightarrow> datetime \<Rightarrow> entry \<Rightarrow> xml" where
  "tg_item lib cfg now e =
     (let title = py_or (e_title e) no_title;
          link = py_or (e_link e) (FEED_LINK cfg);
          (raw_html, first_img) = extract_main_html lib cfg e;
          safe_html = sanitize_for_tg lib raw_html;
          plain = get_text [10] (BeautifulSoup lib safe_html);
          desc_text = chunk_plain_text plain (TELEGRAM_MAX cfg)
      in Element (ascii ''item'') [] [] None
           [sub_text ''title'' title,
            sub_text ''link'' link,
            sub_text ''guid'' (guid_for lib e),
            sub_text ''pubDate'' (dt_to_rfc822 lib (safe_pubdate now e)),
            sub_text ''description'' desc_text])"

definition tg_channel_title_suffix :: ustr where
  "tg_channel_title_suffix = [32, 8212, 32] @ ascii ''Telegram''"

definition tg_channel_description :: ustr where
  "tg_channel_description =
     [1051, 1077, 1085, 1090, 1072, 44, 32, 1087, 1086, 1076, 1075, 1086, 1090, 1086, 1074,
      1083, 1077, 1085, 1085, 1072, 1103, 32, 1076, 1083, 1103, 32, 1072, 1074, 1090, 1086,
      1087, 1086, 1089, 1090, 1080, 1085, 1075, 1072, 32, 1074, 32, 1058, 1077, 1083, 1077,
      1075, 1088, 1072, 1084]"

definition build_tg_xml :: "lib \<Rightarrow> config \<Rightarrow> datetime \<Rightarrow> parsed_feed \<Rightarrow> error + byte list" where
  "build_tg_xml lib cfg now fp =
     tostring lib
       (Element (ascii ''rss'') [] [(ascii ''version'', ascii ''2.0'')] None
          [Element (ascii ''channel'') [] [] None
             ([sub_text ''title'' (FEED_TITLE cfg @ tg_channel_title_suffix),
               sub_text ''link'' (FEED_LINK cfg),
               sub_text ''description'' tg_channel_description]
              @ map (tg_item lib cfg now) (entries fp))])"

section \<open>The cache\<close>

text \<open>
  \<open>maybe_refresh_cache\<close>: \<open>now\<close> is \<open>time.time()\<close> at the call, \<open>now_dt\<close> the wall
  clock the builders read. The three assignments to the cache are three updates of the
  state, in the order of the source, and an exception leaves the function with the
  state as it is at that point.
\<close>

definition maybe_refresh_cache ::
    "lib \<Rightarrow> config \<Rightarrow> datetime \<Rightarrow> bool \<Rightarrow> real \<Rightarrow> state \<Rightarrow> (error + unit) \<times> state" where
  "maybe_refresh_cache lib cfg now_dt force now st =
     (if \<not> force \<and> now - cache_t st < real_of_int (CACHE_TTL cfg) \<and>
         cache_zen st \<noteq> [] \<and> cache_tg st \<noteq> []
      then (Inr (), st)
      else
        (case fetch_source_feed lib cfg st of
           (Inl err, st1) \<Rightarrow> (Inl err, st1)
         | (Inr fp, st1) \<Rightarrow>
             (case build_zen_xml lib cfg now_dt fp of
                Inl err \<Rightarrow> (Inl err, st1)
              | Inr z \<Rightarrow>
                  (let st2 = st1\<lparr>cache_zen := z\<rparr>
                   in case build_tg_xml lib cfg now_dt fp of
                        Inl err \<Rightarrow> (Inl err, st2)
                      | Inr g \<Rightarrow> (Inr (), st2\<lparr>cache_tg := g, cache_t := now\<rparr>)))))"

text \<open>The cache entry (both documents and the timestamp) is the same in two states.\<close>

definition same_cache :: "state \<Rightarrow> state \<Rightarrow> bool" where
  "same_cache st st' \<longleftrightarrow>
     cache_t st' = cache_t st \<and> cache_zen st' = cache_zen st \<and> cache_tg st' = cache_tg st"

section \<open>Notions of the specification\<close>


text \<open>Reading an element: its tag, its children, and the text of its first child with a given tag.\<close>

fun xtag :: "xml \<Rightarrow> ustr" where
  "xtag (Element tag ns as tx cs) = tag"

fun xchildren :: "xml \<Rightarrow> xml list" where
  "xchildren (Element tag ns as tx cs) = cs"



text \<open>The names of all tags of a parse tree.\<close>

fun tags_of :: "node \<Rightarrow> ustr list" where
  "tags_of (Text s) = []"
| "tags_of (Tag m as cs) = m # concat (map tags_of cs)"


text \<open>The derivation of the identifier in the words of the specification.\<close>

fun first_present :: "ustr option list \<Rightarrow> ustr option" where
  "first_present [] = None"
| "first_present (None # vs) = first_present vs"
| "first_present (Some v # vs) = (if v = [] then first_present vs else Some v)"

definition guid_key :: "entry \<Rightarrow> ustr" where
  "guid_key e =
     (case first_present [e_id e, e_guid e, e_link e] of
        Some v \<Rightarrow> v
      | None \<Rightarrow> get_or_empty (e_title e) @ get_or_empty (e_published e))"

text \<open>The digits of a lower-case hexadecimal number.\<close>

definition is_hex :: "nat \<Rightarrow> bool" where
  "is_hex c \<longleftrightarrow> (48 \<le> c \<and> c \<le> 57) \<or> (97 \<le> c \<and> c \<le> 102)"



section \<open>A configuration and library stand-ins for the examples\<close>

text \<open>The defaults the source gives its environment variables.\<close>

definition default_config :: config where
  "default_config =
     \<lparr>SOURCE_FEED_URL = ascii ''https://neiromantra.ru/12583-feed.xml'',
      SITE_BASE = ascii ''https://neiromantra.ru/'',
      FEED_TITLE = ascii ''Neiromantra'' @ [32, 8212, 32, 1085, 1086, 1088, 1084, 1072, 1083, 1080,
        1079, 1086, 1074, 1072, 1085, 1085, 1099, 1081, 32] @ ascii ''RSS'',
      FEED_LINK = ascii ''https://neiromantra.ru/'',
      FEED_DESCRIPTION = [1053, 1086, 1088, 1084, 1072, 1083, 1080, 1079, 1086, 1074, 1072, 1085,
        1085, 1072, 1103, 32, 1083, 1077, 1085, 1090, 1072, 32, 1076, 1083, 1103, 32, 1072, 1074,
        1090, 1086, 1087, 1086, 1089, 1090, 1080, 1085, 1075, 1072, 32, 1074, 32, 1044, 1079, 1077,
        1085, 32, 1080, 32, 1058, 1077, 1083, 1077, 1075, 1088, 1072, 1084],
      TELEGRAM_MAX = 4096,
      CACHE_TTL = 600\<rparr>"

text \<open>
  Stand-ins for the libraries, used only to run the model on concrete inputs: the upstream
  answers with a feed that parses without error to no entries, the cleaner, the parser and
  the printer treat their input as plain text, and the serialiser returns an empty body.
\<close>

definition plain_lib :: lib where
  "plain_lib =
     \<lparr>requests_get = (\<lambda>u. Inr []),
      feedparser_parse = (\<lambda>content. \<lparr>bozo = False, entries = []\<rparr>),
      bleach_clean = (\<lambda>tags attrs html. html),
      BeautifulSoup = (\<lambda>html. if html = [] then [] else [Text html]),
      soup_str = (\<lambda>ns. concat (concat (map strings_of ns))),
      urljoin = (\<lambda>base src. Some src),
      guess_type = (\<lambda>u. None),
      sha256 = (\<lambda>bs. 0),
      strftime_rfc822 = (\<lambda>dt. []),
      etree_serialize = (\<lambda>x. Inr [])\<rparr>"

text \<open>The same, with a serialiser that raises on the document of the restricted feed
  (the one whose root has no namespace map).\<close>

definition tg_failing_lib :: lib where
  "tg_failing_lib =
     plain_lib\<lparr>etree_serialize :=
       (\<lambda>x. case x of Element tag ns as tx cs \<Rightarrow> if ns = [] then Inl BuildFailure else Inr [])\<rparr>"

text \<open>The same, with an upstream whose content does not parse: the error flag is set
  and no entry is recovered.\<close>

definition bozo_lib :: lib where
  "bozo_lib = plain_lib\<lparr>feedparser_parse := (\<lambda>content. \<lparr>bozo = True, entries = []\<rparr>)\<rparr>"

definition noon :: datetime where
  "noon = \<lparr>year = 2024, month = 5, day = 17, hour = 12, minute = 0, second = 0\<rparr>"

text \<open>A cache filled by an earlier refresh, at second 100.\<close>

definition earlier_state :: state where
  "earlier_state = \<lparr>cache_t = 100, cache_zen = [1], cache_tg = [2], requests_sent = 1\<rparr>"

text \<open>An entry with no field at all.\<close>

definition bare_entry :: entry where
  "bare_entry =
     \<lparr>e_id = None, e_guid = None, e_link = None, e_title = None, e_published = None,
      e_published_parsed = None, e_updated_parsed = None, e_content = None, e_summary = None,
      e_description = None, e_author = None, e_tags = None, e_enclosures = None\<rparr>"

section \<open>The truncation of the restricted description\<close>

subsection \<open>What the regular expression removes, what \<open>strip\<close> removes\<close>



















section \<open>The refresh of the cache\<close>



lemmas run_defs = maybe_refresh_cache_def fetch_source_feed_def http_get_def build_zen_xml_def
  build_tg_xml_def tostring_def tg_failing_lib_def plain_lib_def bozo_lib_def default_config_def
  earlier_state_def NSMAP_def same_cache_def



section \<open>A feed that cannot be parsed\<close>

text \<open>
  C2 (as the code has it). Past the freshness test, when the upstream content parses with
  the parser's error flag set and to no entry, the call raises the 502 error and the cache
  entry is what it was.
\<close>

theorem bozo_empty_unavailable:
  assumes "force \<or> \<not> (now - cache_t st < real_of_int (CACHE_TTL cfg) \<and>
                       cache_zen st \<noteq> [] \<and> cache_tg st \<noteq> [])"
    and "requests_get lib (SOURCE_FEED_URL cfg) = Inr content"
    and "bozo (feedparser_parse lib content)"
    and "entries (feedparser_parse lib content) = []"
  shows "fst (maybe_refresh_cache lib cfg now_dt force now st) = Inl (HTTPException 502) \<and>
         same_cache st (snd (maybe_refresh_cache lib cfg now_dt force now st))"
  using assms
  by (auto simp: maybe_refresh_cache_def same_cache_def fetch_source_feed_def http_get_def Let_def)

text \<open>The theorem at an upstream whose content does not parse.\<close>

theorem bozo_empty_unavailable_witness:
  "requests_get bozo_lib (SOURCE_FEED_URL default_config) = Inr [] \<and>
   bozo (feedparser_parse bozo_lib []) \<and> entries (feedparser_parse bozo_lib []) = [] \<and>
   fst (maybe_refresh_cache bozo_lib default_config noon False 1000 earlier_state) =
     Inl (HTTPException 502) \<and>
   same_cache earlier_state
     (snd (maybe_refresh_cache bozo_lib default_config noon False 1000 earlier_state))"
  using bozo_empty_unavailable [of False 1000 earlier_state default_config bozo_lib "[]" noon]
  by (simp add: run_defs)

text \<open>
  C2 (as stated) fails: content that parses without error to no entry is accepted; the
  call returns normally and replaces the cache entry.
\<close>

theorem empty_feed_accepted_counterexample:
  "entries (feedparser_parse plain_lib []) = [] \<and>
   requests_get plain_lib (SOURCE_FEED_URL default_config) = Inr [] \<and>
   maybe_refresh_cache plain_lib default_config noon True 1000 earlier_state =
     (Inr (), \<lparr>cache_t = 1000, cache_zen = xml_declaration, cache_tg = xml_declaration,
               requests_sent = 2\<rparr>) \<and>
   \<not> same_cache earlier_state
       \<lparr>cache_t = 1000, cache_zen = xml_declaration, cache_tg = xml_declaration,
        requests_sent = 2\<rparr>"
  by (simp add: run_defs)

section \<open>Two calls within the time to live\<close>

lemma tostring_nonempty: "tostring lib x = Inr bs \<Longrightarrow> bs \<noteq> []"
  by (auto simp: tostring_def xml_declaration_def split: sum.splits)

text \<open>
  C7. After a call that refreshed the cache and returned normally at \<open>t1\<close>, an unforced
  call at \<open>t2\<close> with \<open>t2 - t1\<close> below the time to live returns with the state unchanged,
  whatever the upstream would answer: the two calls sent one request in total.
\<close>

theorem second_call_within_ttl:
  assumes "force \<or> \<not> (t1 - cache_t st0 < real_of_int (CACHE_TTL cfg) \<and>
                       cache_zen st0 \<noteq> [] \<and> cache_tg st0 \<noteq> [])"
    and "maybe_refresh_cache lib cfg dt1 force t1 st0 = (Inr (), st1)"
    and "t2 - t1 < real_of_int (CACHE_TTL cfg)"
  shows "maybe_refresh_cache lib' cfg dt2 False t2 st1 = (Inr (), st1) \<and>
         requests_sent st1 = Suc (requests_sent st0)"
proof -
  from assms(1,2) obtain fp z g where
    z: "build_zen_xml lib cfg dt1 fp = Inr z" and g: "build_tg_xml lib cfg dt1 fp = Inr g" and
    st1: "st1 = st0\<lparr>requests_sent := Suc (requests_sent st0), cache_zen := z, cache_tg := g,
                    cache_t := t1\<rparr>"
    by (auto simp: maybe_refresh_cache_def fetch_source_feed_def http_get_def Let_def
        split: if_splits sum.splits)
  have "z \<noteq> []" "g \<noteq> []"
    using z g by (auto simp: build_zen_xml_def build_tg_xml_def dest: tostring_nonempty)
  then show ?thesis
    using assms(3) st1 by (simp add: maybe_refresh_cache_def)
qed

text \<open>The theorem at the start of the process: a refresh at second 1000, a call at 1599.\<close>

theorem second_call_within_ttl_witness:
  "maybe_refresh_cache plain_lib default_config noon False 1000 initial_state =
     (Inr (), \<lparr>cache_t = 1000, cache_zen = xml_declaration, cache_tg = xml_declaration,
               requests_sent = 1\<rparr>) \<and>
   (1599 - 1000 :: real) < real_of_int (CACHE_TTL default_config) \<and>
   maybe_refresh_cache bozo_lib default_config noon False 1599
       \<lparr>cache_t = 1000, cache_zen = xml_declaration, cache_tg = xml_declaration,
        requests_sent = 1\<rparr> =
     (Inr (), \<lparr>cache_t = 1000, cache_zen = xml_declaration, cache_tg = xml_declaration,
               requests_sent = 1\<rparr>)"
  using second_call_within_ttl [of False 1000 initial_state default_config plain_lib noon
      "\<lparr>cache_t = 1000, cache_zen = xml_declaration, cache_tg = xml_declaration,
        requests_sent = 1\<rparr>" 1599 bozo_lib noon]
  by (simp add: run_defs initial_state_def)


section \<open>The identifier of an entry\<close>

lemma hex_digit_is_hex: "d < 16 \<Longrightarrow> is_hex (hex_digit d)"
  by (auto simp: is_hex_def hex_digit_def)

lemma hexdigest_length: "length (hexdigest w) = 64"
  by (simp add: hexdigest_def)

lemma hexdigest_hex: "c \<in> set (hexdigest w) \<Longrightarrow> is_hex c"
  by (auto simp: hexdigest_def intro!: hex_digit_is_hex)

lemma guid_for_key: "guid_for lib e = hexdigest (sha256 lib (encode_utf8 (guid_key e)))"
  by (simp add: guid_for_def guid_key_def py_or_def Let_def split: option.splits)

text \<open>
  C5. The identifier is the 64 hexadecimal digits of the SHA-256 digest of the UTF-8
  bytes of one string: the first of id, guid and link that is a non-empty string, else
  the title followed by the published string (each empty when absent). Two entries with
  the same such string have the same identifier, whatever their other fields; nothing
  but the entry enters the computation.
\<close>

theorem guid_for_digest:
  "guid_for lib e = hexdigest (sha256 lib (encode_utf8 (guid_key e))) \<and>
   length (guid_for lib e) = 64 \<and>
   (\<forall>c\<in>set (guid_for lib e). is_hex c) \<and>
   (guid_key e = guid_key e' \<longrightarrow> guid_for lib e = guid_for lib e')"
  by (simp add: guid_for_key hexdigest_length hexdigest_hex)

text \<open>The theorem at two entries that agree on the resolved string only.\<close>

theorem guid_for_digest_witness:
  "guid_key (bare_entry\<lparr>e_id := Some (ascii ''a1''), e_title := Some (ascii ''T'')\<rparr>) =
     guid_key (bare_entry\<lparr>e_guid := Some (ascii ''a1''), e_link := Some (ascii ''http://x/'')\<rparr>) \<and>
   guid_for plain_lib (bare_entry\<lparr>e_id := Some (ascii ''a1''), e_title := Some (ascii ''T'')\<rparr>) =
     guid_for plain_lib (bare_entry\<lparr>e_guid := Some (ascii ''a1''), e_link := Some (ascii ''http://x/'')\<rparr>) \<and>
   guid_for plain_lib (bare_entry\<lparr>e_id := Some (ascii ''a1''), e_title := Some (ascii ''T'')\<rparr>) =
     replicate 64 48"
  using guid_for_digest [of plain_lib "bare_entry\<lparr>e_id := Some (ascii ''a1''), e_title := Some (ascii ''T'')\<rparr>"
      "bare_entry\<lparr>e_guid := Some (ascii ''a1''), e_link := Some (ascii ''http://x/'')\<rparr>"]
  by (simp add: guid_key_def bare_entry_def ascii_def guid_for_def py_or_def plain_lib_def
      hexdigest_def hex_digit_def map_replicate_const)

section \<open>Items of entries with missing fields\<close>


lemma zen_item_children:
  "xchildren (zen_item lib cfg now e) =
     [sub_text ''title'' (py_or (e_title e) no_title),
      sub_text ''link'' (py_or (e_link e) (FEED_LINK cfg)),
      sub_text ''guid'' (guid_for lib e),
      sub_text ''pubDate'' (dt_to_rfc822 lib (safe_pubdate now e)),
      Element (ascii ''{http://purl.org/rss/1.0/modules/content/}encoded'') [] []
        (Some (CDATA (sanitize_for_zen lib (fst (extract_main_html lib cfg e))))) [],
      Element (ascii ''{http://news.yandex.ru}full-text'') [] []
        (Some (CDATA (sanitize_for_zen lib (fst (extract_main_html lib cfg e))))) []]
     @ zen_media (pick_enclosure lib cfg e (snd (extract_main_html lib cfg e)))
     @ zen_author e
     @ zen_categories e
     @ zen_description lib (sanitize_for_zen lib (fst (extract_main_html lib cfg e)))"
  by (simp add: zen_item_def Let_def split: prod.splits)


lemma ascii_eq: "ascii a = ascii b \<longleftrightarrow> a = b"
  by (simp add: ascii_def inj_map_eq_map inj_def)





section \<open>The short description of the rich feed\<close>

lemma find_none:
  "find_node n x = None \<longleftrightarrow> n \<notin> set (tags_of x)"
  "find_nodes n xs = None \<longleftrightarrow> n \<notin> set (concat (map tags_of xs))"
  by (induction n x and n xs rule: find_node_find_nodes.induct) (auto split: option.splits)

lemma zen_media_tags: "c \<in> set (zen_media enc) \<Longrightarrow> xtag c \<noteq> ascii ''description''"
  by (auto simp: zen_media_def ascii_eq split: option.splits)

lemma zen_author_tags: "c \<in> set (zen_author e) \<Longrightarrow> xtag c \<noteq> ascii ''description''"
  by (auto simp: zen_author_def sub_text_def ascii_eq split: option.splits if_splits)

lemma zen_categories_tags: "c \<in> set (zen_categories e) \<Longrightarrow> xtag c \<noteq> ascii ''description''"
  by (auto simp: zen_categories_def sub_text_def ascii_eq split: option.splits if_splits)

text \<open>
  C10. When the sanitized body of the rich profile, as parsed, has no \<open>p\<close> tag, no child
  of the item of the rich feed is a \<open>description\<close> element.
\<close>

theorem no_paragraph_no_description:
  assumes "ascii ''p'' \<notin> set (concat (map tags_of
             (BeautifulSoup lib (sanitize_for_zen lib (fst (extract_main_html lib cfg e))))))"
  shows "\<forall>c\<in>set (xchildren (zen_item lib cfg now e)). xtag c \<noteq> ascii ''description''"
proof -
  have "find_nodes (ascii ''p'')
          (BeautifulSoup lib (sanitize_for_zen lib (fst (extract_main_html lib cfg e)))) = None"
    using assms by (simp add: find_none)
  then have "zen_description lib (sanitize_for_zen lib (fst (extract_main_html lib cfg e))) = []"
    by (simp add: zen_description_def)
  then show ?thesis
    by (auto simp: zen_item_children sub_text_def ascii_eq
        dest: zen_media_tags zen_author_tags zen_categories_tags)
qed

text \<open>The theorem at an entry whose summary is plain text.\<close>

theorem no_paragraph_no_description_witness:
  "ascii ''p'' \<notin> set (concat (map tags_of
      (BeautifulSoup plain_lib (sanitize_for_zen plain_lib
         (fst (extract_main_html plain_lib default_config
            (bare_entry\<lparr>e_summary := Some (ascii ''hello'')\<rparr>))))))) \<and>
   list_all (\<lambda>c. xtag c \<noteq> ascii ''description'')
     (xchildren (zen_item plain_lib default_config noon
        (bare_entry\<lparr>e_summary := Some (ascii ''hello'')\<rparr>)))"
  using no_paragraph_no_description [of plain_lib default_config
      "bare_entry\<lparr>e_summary := Some (ascii ''hello'')\<rparr>" noon]
  by (simp add: list_all_iff plain_lib_def sanitize_for_zen_def extract_main_html_def
      bare_entry_def py_or_def is_data_img_def)

section \<open>The two substitutions of the restricted sanitizer\<close>

subsection \<open>Whitespace\<close>

lemma ws_sub_head: "\<not> is_space c \<Longrightarrow> ws_sub (c # cs) = c # ws_sub cs"
  by simp

lemma ws_sub_nonspace_head:
  "s = [] \<or> \<not> is_space (hd s) \<Longrightarrow> ws_sub s = [] \<or> \<not> is_space (hd (ws_sub s))"
  by (cases s) auto

lemma dropWhile_head: "dropWhile P s = [] \<or> \<not> P (hd (dropWhile P s))"
  using hd_dropWhile by blast

lemma single_spaced_ws_sub: "single_spaced (ws_sub s)"
proof (induction s rule: ws_sub.induct)
  case 1
  show ?case by simp
next
  case (2 c cs)
  show ?case
  proof (cases "is_space c")
    case True
    let ?r = "dropWhile is_space cs"
    have "ws_sub ?r = [] \<or> \<not> is_space (hd (ws_sub ?r))"
      by (rule ws_sub_nonspace_head) (rule dropWhile_head)
    moreover have "single_spaced (ws_sub ?r)" using 2(1)[OF True] .
    ultimately show ?thesis using True
      by (cases "ws_sub ?r") (auto simp: nbsp_replacer_def is_space_def)
  next
    case False
    then show ?thesis using 2(2) by simp
  qed
qed


subsection \<open>The rounds of the line-break pattern\<close>

lemma br_iter_skip: "br_iter (dropWhile is_space s) = br_iter s"
  by (simp add: br_iter_def)

lemma br_iter_space: "is_space c \<Longrightarrow> br_iter (c # cs) = br_iter cs"
  by (simp add: br_iter_def)

lemma br_run_None: "br_iter s = None \<Longrightarrow> br_run s = (0, s)"
  by (simp add: br_run.simps[of s])

lemma br_run_Some: "br_iter s = Some r \<Longrightarrow> br_run s = (Suc (fst (br_run r)), snd (br_run r))"
  by (simp add: br_run.simps[of s] split: prod.splits)

lemma br_run_count_skip: "fst (br_run (dropWhile is_space s)) = fst (br_run s)"
proof (cases "br_iter s")
  case None
  then have "br_iter (dropWhile is_space s) = None" by (simp add: br_iter_skip)
  with None show ?thesis by (simp add: br_run_None)
next
  case (Some r)
  then have "br_iter (dropWhile is_space s) = Some r" by (simp add: br_iter_skip)
  with Some show ?thesis by (simp add: br_run_Some)
qed

lemma br_run_rest_skip:
  "br_iter s \<noteq> None \<Longrightarrow> snd (br_run (dropWhile is_space s)) = snd (br_run s)"
proof -
  assume "br_iter s \<noteq> None"
  then obtain r where r: "br_iter s = Some r" by blast
  then have "br_iter (dropWhile is_space s) = Some r" by (simp add: br_iter_skip)
  with r show ?thesis by (simp add: br_run_Some)
qed

lemma br_match_skip: "br_match (dropWhile is_space s) = br_match s"
proof (cases "br_iter s")
  case None
  then have "br_iter (dropWhile is_space s) = None" by (simp add: br_iter_skip)
  with None show ?thesis by (simp add: br_match_def br_run_None)
next
  case (Some r)
  then have "br_iter (dropWhile is_space s) = Some r" by (simp add: br_iter_skip)
  with Some show ?thesis by (simp add: br_match_def br_run_Some)
qed

lemma br_match_space: "is_space c \<Longrightarrow> br_match (c # cs) = br_match cs"
proof -
  assume c: "is_space c"
  have "br_match (c # cs) = br_match (dropWhile is_space (c # cs))"
    by (simp only: br_match_skip)
  also have "\<dots> = br_match (dropWhile is_space cs)" using c by simp
  also have "\<dots> = br_match cs" by (rule br_match_skip)
  finally show ?thesis .
qed

lemma br_run_maximal: "br_iter (snd (br_run s)) = None"
proof (induction s rule: br_run.induct)
  case (1 s)
  show ?case
  proof (cases "br_iter s")
    case None
    then show ?thesis by (simp add: br_run_None)
  next
    case (Some r)
    then show ?thesis using 1[OF Some] by (simp add: br_run_Some)
  qed
qed

lemma br_match_maximal: "br_match s = Some r \<Longrightarrow> br_iter r = None"
proof -
  assume "br_match s = Some r"
  then have "r = snd (br_run s)"
    by (auto simp: br_match_def split: prod.splits if_splits)
  then show ?thesis by (simp add: br_run_maximal)
qed

lemma br_match_starts: "br_match s \<noteq> None \<Longrightarrow> br_iter s \<noteq> None"
  by (cases "br_iter s") (auto simp: br_match_def br_run_None)

lemma br_match_after_round:
  "br_match s = None \<Longrightarrow> br_iter s = Some r \<Longrightarrow> br_match r = None"
  by (auto simp: br_match_def br_run_Some split: prod.splits if_splits)

lemma br_iter_starts: "br_iter (c # cs) \<noteq> None \<Longrightarrow> is_space c \<or> c = 60"
  by (auto simp: br_iter_def br_tag_def split: list.splits if_splits)

lemma br_sub_verbatim: "br_match (c # cs) = None \<Longrightarrow> br_sub (c # cs) = c # br_sub cs"
  by simp


lemma br_sub_replaced: "br_match s = Some r \<Longrightarrow> br_sub s = ascii ''<br><br>'' @ br_sub r"
  by (cases s) (auto simp: br_match_def br_run_None br_iter_def br_tag_def)

text \<open>A character of the result that is not \<open><\<close> was copied.\<close>

lemma br_sub_head:
  "br_sub t = c # Y \<Longrightarrow> c \<noteq> 60 \<Longrightarrow> \<exists>t'. t = c # t' \<and> Y = br_sub t' \<and> br_match t = None"
proof (cases t)
  case Nil
  assume "br_sub t = c # Y"
  with Nil show ?thesis by simp
next
  case (Cons a as)
  assume eq: "br_sub t = c # Y" and c: "c \<noteq> 60"
  show ?thesis
  proof (cases "br_match t")
    case None
    with Cons eq show ?thesis by simp
  next
    case (Some r)
    then have "br_sub t = ascii ''<br><br>'' @ br_sub r" by (rule br_sub_replaced)
    with eq c show ?thesis by (simp add: ascii_def)
  qed
qed

lemma tag_tail_space: "is_space c \<Longrightarrow> tag_tail (c # cs) = tag_tail cs"
  by (simp add: tag_tail_def)

lemma tag_tail_starts: "tag_tail (c # cs) \<noteq> None \<Longrightarrow> is_space c \<or> c = 47 \<or> c = 62"
  by (auto simp: tag_tail_def split: if_splits)

lemma not_space_47: "\<not> is_space 47" and not_space_62: "\<not> is_space 62"
  and not_space_60: "\<not> is_space 60" and not_space_98: "\<not> is_space 98"
  and not_space_114: "\<not> is_space 114"
  by (simp_all add: is_space_def)

text \<open>Where the result continues a tag with \<open>\s*/?>\<close>, so does the input.\<close>

lemma tag_tail_br_sub:
  "tag_tail (br_sub t) = Some Y \<Longrightarrow> \<exists>t'. tag_tail t = Some t' \<and> Y = br_sub t'"
proof (induction t)
  case Nil
  then show ?case by (simp add: tag_tail_def)
next
  case (Cons c cs)
  obtain d Z where dz: "br_sub (c # cs) = d # Z"
    using Cons.prems by (cases "br_sub (c # cs)") (auto simp: tag_tail_def)
  have d: "is_space d \<or> d = 47 \<or> d = 62"
    using Cons.prems dz tag_tail_starts[of d Z] by auto
  then have "d \<noteq> 60" using not_space_60 by auto
  with dz obtain t' where t': "c # cs = d # t'" "Z = br_sub t'"
    using br_sub_head by blast
  then have cd: "c = d" "cs = t'" by auto
  consider "is_space d" | "\<not> is_space d" "d = 47" | "\<not> is_space d" "d = 62"
    using d by blast
  then show ?case
  proof cases
    case 1
    have "tag_tail (br_sub cs) = Some Y"
      using Cons.prems dz t' cd 1 by (simp add: tag_tail_space)
    then obtain t'' where "tag_tail cs = Some t''" "Y = br_sub t''"
      using Cons.IH by blast
    then show ?thesis using 1 cd by (simp add: tag_tail_space)
  next
    case 2
    have "tag_tail (47 # Z) = Some Y" using Cons.prems dz 2 by simp
    then obtain Z' where z: "Z = 62 # Z'" "Y = Z'"
      using not_space_47 by (auto simp: tag_tail_def split: list.splits if_splits)
    then have "br_sub cs = 62 # Y" using t' cd by simp
    then obtain u where u: "cs = 62 # u" "Y = br_sub u"
      using br_sub_head[of cs 62 Y] by auto
    have "tag_tail (c # cs) = Some u"
      using 2 cd u(1) not_space_47 by (auto simp: tag_tail_def)
    then show ?thesis using u by blast
  next
    case 3
    have "tag_tail (62 # Z) = Some Y" using Cons.prems dz 3 by simp
    then have "Y = Z" using not_space_62 by (simp add: tag_tail_def)
    moreover have "tag_tail (c # cs) = Some cs"
      using 3 cd not_space_62 by (simp add: tag_tail_def)
    ultimately show ?thesis using t' cd by blast
  qed
qed

text \<open>A tag at the start of the result is a replacement or a copy of a tag of the input.\<close>

lemma br_tag_br_sub:
  assumes "br_tag (br_sub t) = Some Y" and "br_match t = None"
  shows "\<exists>t'. br_tag t = Some t' \<and> Y = br_sub t'"
proof -
  obtain Z where z: "br_sub t = 60 # 98 # 114 # Z" "tag_tail Z = Some Y"
    using assms(1) by (auto simp: br_tag_def split: list.splits if_splits)
  obtain c cs where t: "t = c # cs"
    using z(1) by (cases t) auto
  have "br_sub t = c # br_sub cs" using assms(2) t by simp
  with z(1) have c: "c = 60" and s1: "br_sub cs = 98 # 114 # Z" by auto
  from s1 obtain t1 where t1: "cs = 98 # t1" "114 # Z = br_sub t1"
    using br_sub_head[of cs 98 "114 # Z"] by auto
  from t1(2) obtain t2 where t2: "t1 = 114 # t2" "Z = br_sub t2"
    using br_sub_head[of t1 114 Z] by auto
  from z(2) t2(2) obtain t' where t': "tag_tail t2 = Some t'" "Y = br_sub t'"
    using tag_tail_br_sub by blast
  have "br_tag t = Some t'" using t c t1(1) t2(1) t'(1) by (simp add: br_tag_def)
  then show ?thesis using t'(2) by blast
qed

text \<open>Leading whitespace is copied when the pattern does not match there.\<close>

lemma br_sub_leading:
  "br_match t = None \<Longrightarrow> br_sub t = takeWhile is_space t @ br_sub (dropWhile is_space t)"
proof (induction t)
  case Nil
  show ?case by simp
next
  case (Cons c cs)
  show ?case
  proof (cases "is_space c")
    case True
    then have "br_match cs = None" using Cons.prems by (simp add: br_match_space)
    then show ?thesis using Cons.IH Cons.prems True by simp
  next
    case False
    then show ?thesis by simp
  qed
qed

lemma br_sub_no_leading_space:
  "t = [] \<or> \<not> is_space (hd t) \<Longrightarrow> br_sub t = [] \<or> \<not> is_space (hd (br_sub t))"
proof (cases t)
  case Nil
  then show ?thesis by simp
next
  case (Cons c cs)
  assume "t = [] \<or> \<not> is_space (hd t)"
  with Cons have c: "\<not> is_space c" by simp
  show ?thesis
  proof (cases "br_match t")
    case None
    with Cons c show ?thesis by simp
  next
    case (Some r)
    then have "br_sub t = ascii ''<br><br>'' @ br_sub r" by (rule br_sub_replaced)
    then show ?thesis using not_space_60 by (simp add: ascii_def)
  qed
qed

lemma dropWhile_br_sub:
  assumes "br_match t = None"
  shows "dropWhile is_space (br_sub t) = br_sub (dropWhile is_space t)"
proof -
  let ?u = "dropWhile is_space t"
  have nl: "br_sub ?u = [] \<or> \<not> is_space (hd (br_sub ?u))"
    by (rule br_sub_no_leading_space) (rule dropWhile_head)
  have "dropWhile is_space (br_sub t) = dropWhile is_space (takeWhile is_space t @ br_sub ?u)"
    using br_sub_leading[OF assms] by simp
  also have "\<dots> = dropWhile is_space (br_sub ?u)"
    by (rule dropWhile_append2) (auto dest: set_takeWhileD)
  also have "\<dots> = br_sub ?u"
    using nl by (cases "br_sub ?u") auto
  finally show ?thesis .
qed

text \<open>A round at the start of the result is a round of the input, copied.\<close>

lemma br_iter_br_sub:
  assumes "br_iter (br_sub t) = Some Y" and "br_match t = None"
  shows "\<exists>t'. br_iter t = Some t' \<and> Y = br_sub t'"
proof -
  let ?u = "dropWhile is_space t"
  have mu: "br_match ?u = None" using assms(2) by (simp add: br_match_skip)
  obtain Y0 where y0: "br_tag (dropWhile is_space (br_sub t)) = Some Y0" "Y = dropWhile is_space Y0"
    using assms(1) by (auto simp: br_iter_def)
  have "br_tag (br_sub ?u) = Some Y0"
    using y0(1) dropWhile_br_sub[OF assms(2)] by simp
  then obtain t0 where t0: "br_tag ?u = Some t0" "Y0 = br_sub t0"
    using br_tag_br_sub mu by blast
  have it: "br_iter t = Some (dropWhile is_space t0)"
    using t0(1) by (simp add: br_iter_def)
  have "br_match (dropWhile is_space t0) = None"
    using br_match_after_round[OF assms(2) it] .
  then have "br_match t0 = None" by (simp add: br_match_skip)
  then have "Y = br_sub (dropWhile is_space t0)"
    using y0(2) t0(2) dropWhile_br_sub by simp
  then show ?thesis using it by blast
qed

lemma br_iter_br_sub_None: "br_iter t = None \<Longrightarrow> br_iter (br_sub t) = None"
proof -
  assume a: "br_iter t = None"
  then have m: "br_match t = None" using br_match_starts by blast
  show ?thesis
  proof (cases "br_iter (br_sub t)")
    case None
    then show ?thesis .
  next
    case (Some Y)
    then show ?thesis using br_iter_br_sub[OF Some m] a by auto
  qed
qed

subsection \<open>No three rounds are left\<close>

lemma br_iter_br: "br_iter (ascii ''<br>'' @ X) = Some (dropWhile is_space X)"
  by (simp add: br_iter_def br_tag_def tag_tail_def ascii_def is_space_def)

lemma br_run_br: "fst (br_run (ascii ''<br>'' @ X)) = Suc (fst (br_run X))"
  using br_run_Some[OF br_iter_br, of X] by (simp add: br_run_count_skip)

lemma br_run_not_tag: "\<not> is_space c \<Longrightarrow> c \<noteq> 60 \<Longrightarrow> fst (br_run (c # cs)) = 0"
proof -
  assume "\<not> is_space c" "c \<noteq> 60"
  then have "br_iter (c # cs) = None" using br_iter_starts by blast
  then show ?thesis by (simp add: br_run_None)
qed

lemma br_sub_replaced_count:
  assumes "br_match t = Some r"
  shows "fst (br_run (br_sub t)) = 2" and "fst (br_run (ascii ''<br>'' @ br_sub r)) = 1"
proof -
  have "br_iter r = None" using assms by (rule br_match_maximal)
  then have "br_iter (br_sub r) = None" by (rule br_iter_br_sub_None)
  then have 0: "fst (br_run (br_sub r)) = 0" by (simp add: br_run_None)
  then show 1: "fst (br_run (ascii ''<br>'' @ br_sub r)) = 1" by (simp add: br_run_br)
  have "br_sub t = ascii ''<br>'' @ ascii ''<br>'' @ br_sub r"
    using br_sub_replaced[OF assms] by (simp add: ascii_def)
  then show "fst (br_run (br_sub t)) = 2" using 1 by (simp add: br_run_br)
qed

lemma br_run_br_sub_aux:
  "br_match t = None \<Longrightarrow> fst (br_run (br_sub t)) \<le> fst (br_run t)"
proof (induction "length t" arbitrary: t rule: less_induct)
  case less
  show ?case
  proof (cases "br_iter (br_sub t)")
    case None
    then show ?thesis by (simp add: br_run_None)
  next
    case (Some Y)
    then obtain t' where t': "br_iter t = Some t'" "Y = br_sub t'"
      using br_iter_br_sub less.prems by blast
    have m: "br_match t' = None" using br_match_after_round[OF less.prems t'(1)] .
    have "length t' < length t" using t'(1) by (rule br_iter_shorter)
    then have "fst (br_run (br_sub t')) \<le> fst (br_run t')" using less.hyps m by blast
    then show ?thesis using Some t' by (simp add: br_run_Some)
  qed
qed

lemma br_run_unmatched: "br_match t = None \<Longrightarrow> fst (br_run t) \<le> 2"
  by (auto simp: br_match_def split: prod.splits if_splits)

lemma br_run_br_sub: "fst (br_run (br_sub t)) \<le> 2"
proof (cases "br_match t")
  case None
  then show ?thesis using br_run_br_sub_aux[OF None] br_run_unmatched[OF None] by simp
next
  case (Some r)
  then show ?thesis using br_sub_replaced_count(1) by simp
qed

lemma br_run_suffix_br_sub: "suffix u (br_sub t) \<Longrightarrow> fst (br_run u) \<le> 2"
proof (induction t arbitrary: u rule: br_sub.induct)
  case 1
  then have "u = []" by simp
  then show ?case by (simp add: br_run_None br_iter_def br_tag_def)
next
  case (2 c cs)
  show ?case
  proof (cases "br_match (c # cs)")
    case None
    then have "br_sub (c # cs) = c # br_sub cs" by simp
    with "2.prems" have "u = br_sub (c # cs) \<or> suffix u (br_sub cs)"
      by (simp add: suffix_Cons)
    then show ?thesis using "2.IH"(1)[OF None] br_run_br_sub by blast
  next
    case (Some r)
    let ?X = "br_sub r"
    have eq: "br_sub (c # cs) = 60 # 98 # 114 # 62 # 60 # 98 # 114 # 62 # ?X"
      using br_sub_replaced[OF Some] by (simp add: ascii_def)
    have cases: "u = br_sub (c # cs) \<or> u = 98 # 114 # 62 # 60 # 98 # 114 # 62 # ?X \<or>
      u = 114 # 62 # 60 # 98 # 114 # 62 # ?X \<or> u = 62 # 60 # 98 # 114 # 62 # ?X \<or>
      u = ascii ''<br>'' @ ?X \<or> u = 98 # 114 # 62 # ?X \<or> u = 114 # 62 # ?X \<or> u = 62 # ?X \<or>
      suffix u ?X"
      using "2.prems" unfolding eq by (auto simp: suffix_Cons ascii_def)
    show ?thesis
      using cases br_run_br_sub[of "c # cs"] br_sub_replaced_count(2)[OF Some] "2.IH"(2)[OF Some]
        br_run_not_tag[OF not_space_98, of "114 # 62 # 60 # 98 # 114 # 62 # ?X"]
        br_run_not_tag[OF not_space_114, of "62 # 60 # 98 # 114 # 62 # ?X"]
        br_run_not_tag[OF not_space_62, of "60 # 98 # 114 # 62 # ?X"]
        br_run_not_tag[OF not_space_98, of "114 # 62 # ?X"]
        br_run_not_tag[OF not_space_114, of "62 # ?X"]
        br_run_not_tag[OF not_space_62, of ?X]
      by auto
  qed
qed

subsection \<open>Single spaces stay single\<close>

lemma single_spaced_Cons:
  "single_spaced (c # t) \<longleftrightarrow>
     (is_space c \<longrightarrow> c = 32 \<and> (t = [] \<or> \<not> is_space (hd t))) \<and> single_spaced t"
  by (cases t) auto

lemma single_spaced_suffix: "suffix u t \<Longrightarrow> single_spaced t \<Longrightarrow> single_spaced u"
proof (induction t)
  case Nil
  then show ?case by simp
next
  case (Cons c cs)
  then show ?case by (auto simp: suffix_Cons single_spaced_Cons simp del: single_spaced.simps)
qed

lemma suffix_dropWhile: "suffix (dropWhile P s) s"
  by (metis suffixI takeWhile_dropWhile_id)

lemma tag_tail_suffix: "tag_tail s = Some r \<Longrightarrow> suffix r s"
proof -
  assume a: "tag_tail s = Some r"
  have "suffix r (dropWhile is_space s)"
    using a by (auto simp: tag_tail_def suffix_Cons split: list.splits if_splits)
  then show ?thesis using suffix_dropWhile suffix_order.trans by blast
qed

lemma br_iter_suffix: "br_iter s = Some r \<Longrightarrow> suffix r s"
proof -
  assume "br_iter s = Some r"
  then obtain r0 where r0: "br_tag (dropWhile is_space s) = Some r0" "r = dropWhile is_space r0"
    by (auto simp: br_iter_def)
  obtain z where z: "dropWhile is_space s = 60 # 98 # 114 # z" "tag_tail z = Some r0"
    using r0(1) by (auto simp: br_tag_def split: list.splits if_splits)
  have "suffix r0 z" using z(2) by (rule tag_tail_suffix)
  then have "suffix r0 (dropWhile is_space s)" unfolding z(1) by (simp add: suffix_Cons)
  then have "suffix r0 s" using suffix_dropWhile suffix_order.trans by blast
  moreover have "suffix r r0" unfolding r0(2) by (rule suffix_dropWhile)
  ultimately show ?thesis using suffix_order.trans by blast
qed

lemma br_run_suffix: "suffix (snd (br_run s)) s"
proof (induction s rule: br_run.induct)
  case (1 s)
  show ?case
  proof (cases "br_iter s")
    case None
    then show ?thesis by (simp add: br_run_None)
  next
    case (Some r)
    have "suffix (snd (br_run r)) r" using 1[OF Some] .
    moreover have "suffix r s" using Some by (rule br_iter_suffix)
    ultimately have "suffix (snd (br_run r)) s" using suffix_order.trans by blast
    then show ?thesis using Some by (simp add: br_run_Some)
  qed
qed

lemma br_match_suffix: "br_match s = Some r \<Longrightarrow> suffix r s"
proof -
  assume "br_match s = Some r"
  then have "r = snd (br_run s)"
    by (auto simp: br_match_def split: prod.splits if_splits)
  then show ?thesis by (simp add: br_run_suffix)
qed

lemma single_spaced_br_sub: "single_spaced t \<Longrightarrow> single_spaced (br_sub t)"
proof (induction t rule: br_sub.induct)
  case 1
  show ?case by simp
next
  case (2 c cs)
  show ?case
  proof (cases "br_match (c # cs)")
    case None
    have cs: "single_spaced cs" using "2.prems" by (simp add: single_spaced_Cons)
    then have ih: "single_spaced (br_sub cs)" using "2.IH"(1)[OF None] by simp
    have "cs = [] \<or> \<not> is_space (hd cs) \<Longrightarrow> br_sub cs = [] \<or> \<not> is_space (hd (br_sub cs))"
      by (rule br_sub_no_leading_space)
    then show ?thesis using None ih "2.prems"
      by (auto simp: single_spaced_Cons simp del: single_spaced.simps)
  next
    case (Some r)
    have "suffix r (c # cs)" using Some by (rule br_match_suffix)
    then have "single_spaced r" using "2.prems" single_spaced_suffix by blast
    then have "single_spaced (br_sub r)" using "2.IH"(2)[OF Some] by simp
    moreover have "br_sub (c # cs) = 60 # 98 # 114 # 62 # 60 # 98 # 114 # 62 # br_sub r"
      using br_sub_replaced[OF Some] by (simp add: ascii_def)
    ultimately show ?thesis
      using not_space_60 not_space_98 not_space_114 not_space_62
      by (simp add: single_spaced_Cons del: single_spaced.simps)
  qed
qed

subsection \<open>A run in its context\<close>





subsection \<open>The restricted sanitizer\<close>






subsection \<open>The substitutions on their own result\<close>

lemma ws_sub_single_spaced: "single_spaced s \<Longrightarrow> ws_sub s = s"
proof (induction s rule: ws_sub.induct)
  case 1
  show ?case by simp
next
  case (2 c cs)
  show ?case
  proof (cases "is_space c")
    case True
    then have c: "c = 32" and cs: "cs = [] \<or> \<not> is_space (hd cs)" and s: "single_spaced cs"
      using "2.prems" by (auto simp: single_spaced_Cons simp del: single_spaced.simps)
    have d: "dropWhile is_space cs = cs" using cs by (cases cs) auto
    then have "ws_sub (dropWhile is_space cs) = cs" using "2.IH"(1)[OF True] s by simp
    then show ?thesis using True c by (simp add: nbsp_replacer_def)
  next
    case False
    then show ?thesis using "2.IH"(2) "2.prems" by simp
  qed
qed

lemma br_sub_fixed: "(\<And>u. suffix u s \<Longrightarrow> fst (br_run u) \<le> 2) \<Longrightarrow> br_sub s = s"
proof (induction s)
  case Nil
  show ?case by simp
next
  case (Cons c cs)
  have "fst (br_run (c # cs)) \<le> 2" using Cons.prems by simp
  then have m: "br_match (c # cs) = None"
    by (auto simp: br_match_def split: prod.splits)
  have "br_sub cs = cs" using Cons.IH Cons.prems by (simp add: suffix_Cons)
  then show ?case using m by simp
qed

text \<open>Applied to their own result, the two substitutions change nothing.\<close>

lemma substitutions_idempotent:
  "br_sub (ws_sub (br_sub (ws_sub z))) = br_sub (ws_sub z)"
proof -
  have "single_spaced (br_sub (ws_sub z))"
    using single_spaced_ws_sub by (rule single_spaced_br_sub)
  then have "ws_sub (br_sub (ws_sub z)) = br_sub (ws_sub z)"
    by (rule ws_sub_single_spaced)
  moreover have "br_sub (br_sub (ws_sub z)) = br_sub (ws_sub z)"
    by (rule br_sub_fixed) (rule br_run_suffix_br_sub)
  ultimately show ?thesis by simp
qed

section \<open>The allow-lists\<close>

subsection \<open>The substitutions add no tag but the line break\<close>











subsection \<open>Both sanitizers\<close>






end
